theory Spec2Isabelle
  imports Main
begin

section \<open>Values of the JavaScript runtime\<close>

text \<open>
  The translator of \<^verbatim>\<open>sequelizeQueryParser.js\<close> turns the query parameters of a request
  into a Sequelize query object. Its latest revision (the second module of the source file,
  whose table is named \<^verbatim>\<open>operators\<close>) is embedded here, function by function.

  Conventions of the embedding:
  \<^item> a JavaScript string is a \<open>string\<close>; its characters are the code units below 256, of which
    line feed and carriage return are the line terminators;
  \<^item> an object is the list of its own properties in enumeration order, each name at most
    once; a property name is a string or a symbol; names that an object inherits from
    \<^verbatim>\<open>Object.prototype\<close> are not part of the model;
  \<^item> a number is an integer or \<^verbatim>\<open>NaN\<close>; the arithmetic is exact, as the runtime's is for
    integers of magnitude below \<open>2 ^ 53\<close>; a number of a JSON text is an integer;
  \<^item> what the collaborator resolves a name to (\<open>Handle\<close>) is a model class, a function for
    \<^verbatim>\<open>typeof\<close>;
  \<^item> an exception is a value \<open>Inl e\<close>, and the errors of the runtime itself have the messages
    that Node.js gives them; the calls of \<^verbatim>\<open>console.debug\<close> are left out.
\<close>

datatype 's key = Name string | Sym 's

datatype ('s, 'h) json =
    Undefined
  | Null
  | Bool bool
  | Num int
  | Str string
  | Arr "('s, 'h) json list"
  | Obj "('s key \<times> ('s, 'h) json) list"
  | Handle 'h

datatype number = NaN | Finite int

datatype error = SyntaxError string | TypeError string

fun message :: "error \<Rightarrow> string" where
  "message (SyntaxError m) = m"
| "message (TypeError m) = m"

text \<open>A request parameter is one string, or the strings of a repeated parameter.\<close>

datatype param = Single string | Repeated "string list"

text \<open>
  What the module receives from outside: the members of \<^verbatim>\<open>db.Sequelize.Op\<close> (symbols), the
  lookup \<^verbatim>\<open>db[v]\<close> of a scalar \<open>v\<close> (\<open>None\<close> when it is \<^verbatim>\<open>null\<close> or \<^verbatim>\<open>undefined\<close>), and the
  built-in functions \<^verbatim>\<open>JSON.parse\<close> (\<open>Inl\<close> carries the message of its \<^verbatim>\<open>SyntaxError\<close>),
  \<^verbatim>\<open>unescape\<close> and \<^verbatim>\<open>parseInt\<close>.
\<close>

record ('s, 'h) env =
  Op :: "string \<Rightarrow> 's"
  db :: "('s, 'h) json \<Rightarrow> 'h option"
  JSON_parse :: "string \<Rightarrow> string + ('s, 'h) json"
  unescape :: "string \<Rightarrow> string"
  parseInt :: "string \<Rightarrow> number"

subsection \<open>Strings\<close>

text \<open>\<^verbatim>\<open>s.split(sep)\<close> for a separator of one character; \<open>cur\<close> is the piece being read.\<close>

fun split_on :: "char \<Rightarrow> string \<Rightarrow> string \<Rightarrow> string list" where
  "split_on sep cur [] = [cur]"
| "split_on sep cur (c # cs) =
     (if c = sep then cur # split_on sep [] cs else split_on sep (cur @ [c]) cs)"

definition isLineTerminator :: "char \<Rightarrow> bool" where
  "isLineTerminator c = (c = CHR 0x0A \<or> c = CHR 0x0D)"

text \<open>
  \<^verbatim>\<open>s.split(/:(.+)/)\<close>. The pattern matches at a colon that is followed by at least one
  character other than a line terminator, and its group takes all such characters that
  follow. The pieces are the text before the match, the group, and the split of the rest.
\<close>

function split_colon :: "string \<Rightarrow> string \<Rightarrow> string list" where
  "split_colon cur [] = [cur]"
| "split_colon cur (c # cs) =
     (if c = CHR '':'' \<and> takeWhile (\<lambda>d. \<not> isLineTerminator d) cs \<noteq> []
      then cur # takeWhile (\<lambda>d. \<not> isLineTerminator d) cs
             # split_colon [] (dropWhile (\<lambda>d. \<not> isLineTerminator d) cs)
      else split_colon (cur @ [c]) cs)"
  by pat_completeness auto
termination
  by (relation "measure (\<lambda>(cur, s). length s)") (auto simp: length_dropWhile_le less_Suc_eq_le)

text \<open>\<^verbatim>\<open>xs.toString()\<close> of an array of strings joins them with commas.\<close>

fun join_comma :: "string list \<Rightarrow> string" where
  "join_comma [] = []"
| "join_comma [x] = x"
| "join_comma (x # y # ys) = x @ '','' @ join_comma (y # ys)"

fun toString :: "param \<Rightarrow> string" where
  "toString (Single s) = s"
| "toString (Repeated xs) = join_comma xs"

text \<open>The decimal name of an array index.\<close>

definition digit :: "nat \<Rightarrow> char" where
  "digit d = char_of (48 + d)"

fun decimal :: "nat \<Rightarrow> string" where
  "decimal n = (if n < 10 then [digit n] else decimal (n div 10) @ [digit (n mod 10)])"

subsection \<open>Numbers\<close>

fun Math_max :: "number \<Rightarrow> number \<Rightarrow> number" where
  "Math_max (Finite a) (Finite b) = Finite (max a b)"
| "Math_max _ _ = NaN"

fun Math_min :: "number \<Rightarrow> number \<Rightarrow> number" where
  "Math_min (Finite a) (Finite b) = Finite (min a b)"
| "Math_min _ _ = NaN"

fun multiply :: "number \<Rightarrow> number \<Rightarrow> number" where
  "multiply (Finite a) (Finite b) = Finite (a * b)"
| "multiply _ _ = NaN"

subsection \<open>Objects\<close>

text \<open>\<^verbatim>\<open>json[key]\<close>, \<^verbatim>\<open>json[key] = value\<close> and \<^verbatim>\<open>delete json[key]\<close> on the own properties.\<close>

definition get :: "('k \<times> ('s, 'h) json) list \<Rightarrow> 'k \<Rightarrow> ('s, 'h) json" where
  "get json k = (case map_of json k of Some v \<Rightarrow> v | None \<Rightarrow> Undefined)"

fun assign :: "'k \<Rightarrow> 'v \<Rightarrow> ('k \<times> 'v) list \<Rightarrow> ('k \<times> 'v) list" where
  "assign k v [] = [(k, v)]"
| "assign k v ((k', v') # kvs) =
     (if k' = k then (k, v) # kvs else (k', v') # assign k v kvs)"

definition delete :: "'k \<Rightarrow> ('k \<times> 'v) list \<Rightarrow> ('k \<times> 'v) list" where
  "delete k kvs = filter (\<lambda>p. fst p \<noteq> k) kvs"

fun typeof :: "('s, 'h) json \<Rightarrow> string" where
  "typeof Undefined = ''undefined''"
| "typeof Null = ''object''"
| "typeof (Bool _) = ''boolean''"
| "typeof (Num _) = ''number''"
| "typeof (Str _) = ''string''"
| "typeof (Arr _) = ''object''"
| "typeof (Obj _) = ''object''"
| "typeof (Handle _) = ''function''"

section \<open>The translator\<close>

subsection \<open>The operator table\<close>

definition operators :: "('s, 'h) env \<Rightarrow> (string \<times> 's) list" where
  "operators env =
     [(''gt'', Op env ''gt''), (''gte'', Op env ''gte''), (''lt'', Op env ''lt''),
      (''lte'', Op env ''lte''), (''ne'', Op env ''ne''), (''eq'', Op env ''eq''),
      (''not'', Op env ''not''), (''like'', Op env ''like''),
      (''notLike'', Op env ''notLike''), (''regexp'', Op env ''regexp''),
      (''notRegexp'', Op env ''notRegexp''), (''and'', Op env ''and''),
      (''or'', Op env ''or''), (''between'', Op env ''between''),
      (''notBetween'', Op env ''notBetween''), (''in'', Op env ''in''),
      (''notIn'', Op env ''notIn'')]"

subsection \<open>Field lists\<close>

text \<open>
  \<^verbatim>\<open>splitStringAndBuildArray\<close> pushes onto \<open>array\<close> the pieces between dots of every piece
  between commas; a split has at least one piece, so each is pushed.
\<close>

definition splitStringAndBuildArray :: "string \<Rightarrow> string list list \<Rightarrow> string list list" where
  "splitStringAndBuildArray obj array =
     fold (\<lambda>element arr. arr @ [split_on CHR ''.'' [] element]) (split_on CHR '','' [] obj) array"

fun parseFields :: "param \<Rightarrow> string list list" where
  "parseFields (Repeated query) = fold splitStringAndBuildArray query []"
| "parseFields (Single query) = splitStringAndBuildArray query []"

subsection \<open>The operator-rewrite pass\<close>

definition replaceKeyWithOperator ::
  "('s key \<times> ('s, 'h) json) list \<Rightarrow> 's key \<Rightarrow> 's key \<Rightarrow> ('s key \<times> ('s, 'h) json) list" where
  "replaceKeyWithOperator json k op = (let v = get json k in assign op v (delete k json))"

text \<open>
  \<^verbatim>\<open>iterativeReplace\<close> changes its argument in place; here it returns the changed value.
  \<open>forEach\<close> is the loop over \<^verbatim>\<open>Object.keys(json)\<close> of an object: its first list is what
  is left of the listing, each name with the value it had when the names were listed, and
  its second list is the object as changed so far. The loop body reads \<^verbatim>\<open>json[key]\<close> from
  the listing (no step writes a property with a string name other than the one it visits,
  see \<open>forEach_reads_listed_value\<close> below) and writes to the object. Symbols are not
  listed. \<open>forEachIndex\<close> is the same loop over an array, whose names are its indices:
  none is an operator name or \<^verbatim>\<open>model\<close>, so the body only descends into the elements that
  are objects. A string has characters under its indices and stays as it is.
\<close>

fun iterativeReplace :: "('s, 'h) env \<Rightarrow> ('s, 'h) json \<Rightarrow> error + ('s, 'h) json"
  and forEach :: "('s, 'h) env \<Rightarrow> ('s key \<times> ('s, 'h) json) list \<Rightarrow>
      ('s key \<times> ('s, 'h) json) list \<Rightarrow> error + ('s key \<times> ('s, 'h) json) list"
  and forEachIndex :: "('s, 'h) env \<Rightarrow> ('s, 'h) json list \<Rightarrow> error + ('s, 'h) json list"
where
  "iterativeReplace env Undefined = Inl (TypeError ''Cannot convert undefined or null to object'')"
| "iterativeReplace env Null = Inl (TypeError ''Cannot convert undefined or null to object'')"
| "iterativeReplace env (Obj kvs) =
     (case forEach env kvs kvs of Inl e \<Rightarrow> Inl e | Inr json \<Rightarrow> Inr (Obj json))"
| "iterativeReplace env (Arr vs) =
     (case forEachIndex env vs of Inl e \<Rightarrow> Inl e | Inr vs' \<Rightarrow> Inr (Arr vs'))"
| "iterativeReplace env (Bool b) = Inr (Bool b)"
| "iterativeReplace env (Num n) = Inr (Num n)"
| "iterativeReplace env (Str s) = Inr (Str s)"
| "iterativeReplace env (Handle h) = Inr (Handle h)"
| "forEach env [] json = Inr json"
| "forEach env ((Sym s, v) # keys) json = forEach env keys json"
| "forEach env ((Name k, v) # keys) json =
     (if v \<noteq> Null \<and> typeof v = ''object'' then
        (case map_of (operators env) k of
           Some op \<Rightarrow>
             (case iterativeReplace env v of
                Inl e \<Rightarrow> Inl e
              | Inr v' \<Rightarrow>
                  forEach env keys
                    (assign (Sym op) v' (replaceKeyWithOperator json (Name k) (Sym op))))
         | None \<Rightarrow>
             (case iterativeReplace env v of
                Inl e \<Rightarrow> Inl e
              | Inr v' \<Rightarrow> forEach env keys (assign (Name k) v' json)))
      else if k = ''model'' \<and> db env v \<noteq> None then
        forEach env keys (assign (Name ''model'') (Handle (the (db env v))) json)
      else
        (case map_of (operators env) k of
           Some op \<Rightarrow> forEach env keys (replaceKeyWithOperator json (Name k) (Sym op))
         | None \<Rightarrow> forEach env keys json))"
| "forEachIndex env [] = Inr []"
| "forEachIndex env (v # vs) =
     (if v \<noteq> Null \<and> typeof v = ''object'' then
        (case iterativeReplace env v of
           Inl e \<Rightarrow> Inl e
         | Inr v' \<Rightarrow>
             (case forEachIndex env vs of Inl e \<Rightarrow> Inl e | Inr vs' \<Rightarrow> Inr (v' # vs')))
      else
        (case forEachIndex env vs of Inl e \<Rightarrow> Inl e | Inr vs' \<Rightarrow> Inr (v # vs')))"

definition unescapeEscapedQuery :: "('s, 'h) env \<Rightarrow> param \<Rightarrow> string" where
  "unescapeEscapedQuery env query = (let queryString = toString query in unescape env queryString)"

definition parseQueryFields :: "('s, 'h) env \<Rightarrow> param \<Rightarrow> error + ('s, 'h) json" where
  "parseQueryFields env query =
     (case JSON_parse env (unescapeEscapedQuery env query) of
        Inl m \<Rightarrow> Inl (SyntaxError m)
      | Inr json \<Rightarrow> iterativeReplace env json)"

definition parseIncludeFields :: "('s, 'h) env \<Rightarrow> param \<Rightarrow> error + ('s, 'h) json" where
  "parseIncludeFields env query =
     (case JSON_parse env (unescapeEscapedQuery env query) of
        Inl m \<Rightarrow> Inl (SyntaxError m)
      | Inr json \<Rightarrow> iterativeReplace env json)"

subsection \<open>Filter expressions\<close>

text \<open>
  \<^verbatim>\<open>param[operators[elements[0]]] = ...\<close>: the name of the property is the symbol found in the
  table, and the string \<^verbatim>\<open>undefined\<close> when the table has no such entry. A repeated
  parameter is an array, which has no \<^verbatim>\<open>split\<close>.
\<close>

definition operatorKey :: "('s, 'h) env \<Rightarrow> string \<Rightarrow> 's key" where
  "operatorKey env name =
     (case map_of (operators env) name of Some op \<Rightarrow> Sym op | None \<Rightarrow> Name ''undefined'')"

fun parseQueryParam :: "('s, 'h) env \<Rightarrow> param \<Rightarrow> error + ('s, 'h) json" where
  "parseQueryParam env (Repeated query) = Inl (TypeError ''query.split is not a function'')"
| "parseQueryParam env (Single query) =
     (case split_colon [] query of
        [] \<Rightarrow> Inr Undefined
      | [e0] \<Rightarrow> Inr (Str e0)
      | e0 # e1 # _ \<Rightarrow>
          (case split_on CHR '','' [] e1 of
             [] \<Rightarrow> Inr (Obj [(operatorKey env e0, Undefined)])
           | [x] \<Rightarrow> Inr (Obj [(operatorKey env e0, Str x)])
           | elementsArray \<Rightarrow> Inr (Obj [(operatorKey env e0, Arr (map Str elementsArray))])))"

subsection \<open>The query object\<close>

record ('s, 'h) dbQuery =
  where' :: "('s key \<times> ('s, 'h) json) list"
  offset :: number
  limit :: number
  attributes :: "string list option"
  order' :: "string list list option"
  group' :: "string list list option"
  include' :: "('s, 'h) json option"

text \<open>The variables of \<^verbatim>\<open>parse\<close> that the loop over the parameters changes.\<close>

record ('s, 'h) locals =
  offset_var :: number
  limit_var :: number
  dbQuery :: "('s, 'h) dbQuery"

record failure =
  msg :: string

definition pageSizeLimit :: number where
  "pageSizeLimit = Finite 200"

text \<open>
  \<^verbatim>\<open>{ ...a, ...b }\<close>: the own properties of \<open>b\<close> assigned in turn to a copy of \<open>a\<close>. An
  array and a string spread their elements under their indices; any other value that is
  not an object spreads nothing.
\<close>

fun ownProperties :: "('s, 'h) json \<Rightarrow> ('s key \<times> ('s, 'h) json) list" where
  "ownProperties (Obj kvs) = kvs"
| "ownProperties (Arr vs) = zip (map (\<lambda>i. Name (decimal i)) [0..<length vs]) vs"
| "ownProperties (Str s) = zip (map (\<lambda>i. Name (decimal i)) [0..<length s]) (map (\<lambda>c. Str [c]) s)"
| "ownProperties _ = []"

definition spread ::
  "('s key \<times> ('s, 'h) json) list \<Rightarrow> ('s key \<times> ('s, 'h) json) list \<Rightarrow> ('s key \<times> ('s, 'h) json) list" where
  "spread a b = fold (\<lambda>p obj. assign (fst p) (snd p) obj) b a"

text \<open>
  The body of the loop \<^verbatim>\<open>for (const key in req.query)\<close>, for one parameter with its value
  \<^verbatim>\<open>req.query[key]\<close>.
\<close>

definition switch :: "('s, 'h) env \<Rightarrow> string \<times> param \<Rightarrow> ('s, 'h) locals \<Rightarrow> error + ('s, 'h) locals" where
  "switch env p st =
     (let key = fst p; v = snd p in
      if key = ''fields'' then
        (case v of
           Repeated _ \<Rightarrow> Inl (TypeError ''req.query.fields.split is not a function'')
         | Single s \<Rightarrow>
             (let fields = split_on CHR '','' [] s in
              if length fields > 0
              then Inr (st\<lparr>dbQuery := (dbQuery st)\<lparr>attributes := Some fields\<rparr>\<rparr>)
              else Inr st))
      else if key = ''limit'' then
        (let l = Math_min (Math_max (parseInt env (toString v)) (Finite 1)) pageSizeLimit in
         Inr (st\<lparr>dbQuery := (dbQuery st)\<lparr>limit := l\<rparr>, limit_var := l\<rparr>))
      else if key = ''offset'' then
        Inr (st\<lparr>offset_var := Math_max (parseInt env (toString v)) (Finite 0)\<rparr>)
      else if key = ''sort_by'' then
        Inr (st\<lparr>dbQuery := (dbQuery st)\<lparr>order' := Some (parseFields v)\<rparr>\<rparr>)
      else if key = ''group_by'' then
        Inr (st\<lparr>dbQuery := (dbQuery st)\<lparr>group' := Some (parseFields v)\<rparr>\<rparr>)
      else if key = ''query'' then
        (case parseQueryFields env v of
           Inl e \<Rightarrow> Inl e
         | Inr parsed \<Rightarrow>
             Inr (st\<lparr>dbQuery := (dbQuery st)
                   \<lparr>where' := spread (where' (dbQuery st)) (ownProperties parsed)\<rparr>\<rparr>))
      else if key = ''include'' then
        (case parseIncludeFields env v of
           Inl e \<Rightarrow> Inl e
         | Inr parsed \<Rightarrow> Inr (st\<lparr>dbQuery := (dbQuery st)\<lparr>include' := Some parsed\<rparr>\<rparr>))
      else
        (case parseQueryParam env v of
           Inl e \<Rightarrow> Inl e
         | Inr parsed \<Rightarrow>
             Inr (st\<lparr>dbQuery := (dbQuery st)
                   \<lparr>where' := assign (Name key) parsed (where' (dbQuery st))\<rparr>\<rparr>)))"

fun forIn :: "('s, 'h) env \<Rightarrow> (string \<times> param) list \<Rightarrow> ('s, 'h) locals \<Rightarrow> error + ('s, 'h) locals" where
  "forIn env [] st = Inr st"
| "forIn env (p # ps) st = (case switch env p st of Inl e \<Rightarrow> Inl e | Inr st' \<Rightarrow> forIn env ps st')"

definition initial :: "('s, 'h) locals" where
  "initial =
     \<lparr>offset_var = Finite 0, limit_var = pageSizeLimit,
      dbQuery = \<lparr>where' = [], offset = Finite 0, limit = pageSizeLimit, attributes = None,
                 order' = None, group' = None, include' = None\<rparr>\<rparr>"

text \<open>
  \<^verbatim>\<open>parse\<close> takes the parameters \<^verbatim>\<open>req.query\<close> in enumeration order; the promise it returns is
  rejected (\<open>Inl\<close>) or resolved (\<open>Inr\<close>).
\<close>

definition parse :: "('s, 'h) env \<Rightarrow> (string \<times> param) list \<Rightarrow> failure list + ('s, 'h) dbQuery" where
  "parse env query =
     (case forIn env query initial of
        Inl e \<Rightarrow> Inl [\<lparr>msg = message e\<rparr>]
      | Inr st \<Rightarrow> Inr ((dbQuery st)\<lparr>offset := multiply (offset_var st) (limit_var st)\<rparr>))"

subsection \<open>The translator on a store\<close>

text \<open>
  The functions above return what the source computes. To say what a call of \<^verbatim>\<open>parse\<close> does
  to the objects that exist around it, the same statements are given once more on a store:
  a list of cells, an object's address being its index. A cell holds an object together
  with what only this object refers to: the parameter mapping \<^verbatim>\<open>req.query\<close> that the caller
  owns, a value returned by \<^verbatim>\<open>JSON.parse\<close>, or a query object. An allocation appends a cell;
  a statement that changes an object writes its cell, and a statement that stores something
  fresh in the query object moves it into that cell. The numbers \<^verbatim>\<open>offset\<close> and \<^verbatim>\<open>limit\<close>
  are local variables and not in the store.
\<close>

datatype ('s, 'h) cell =
    Params "(string \<times> param) list"
  | Tree "('s, 'h) json"
  | Query "('s, 'h) dbQuery"

text \<open>Reading through a reference; a reference to a cell of another kind reads nothing.\<close>

definition readParams :: "('s, 'h) cell list \<Rightarrow> nat \<Rightarrow> (string \<times> param) list" where
  "readParams s r = (if r < length s then (case s ! r of Params q \<Rightarrow> q | _ \<Rightarrow> []) else [])"

definition readTree :: "('s, 'h) cell list \<Rightarrow> nat \<Rightarrow> ('s, 'h) json" where
  "readTree s j = (if j < length s then (case s ! j of Tree json \<Rightarrow> json | _ \<Rightarrow> Undefined) else Undefined)"

definition readQuery :: "('s, 'h) cell list \<Rightarrow> nat \<Rightarrow> ('s, 'h) dbQuery option" where
  "readQuery s d = (if d < length s then (case s ! d of Query q \<Rightarrow> Some q | _ \<Rightarrow> None) else None)"

definition writeQuery ::
  "(('s, 'h) dbQuery \<Rightarrow> ('s, 'h) dbQuery) \<Rightarrow> nat \<Rightarrow> ('s, 'h) cell list \<Rightarrow> ('s, 'h) cell list" where
  "writeQuery f d s = (case readQuery s d of Some q \<Rightarrow> s[d := Query (f q)] | None \<Rightarrow> s)"

text \<open>
  \<^verbatim>\<open>iterativeReplace(json)\<close> changes the value behind the reference \<open>j\<close> in place;
  \<^verbatim>\<open>parseQueryFields\<close> and \<^verbatim>\<open>parseIncludeFields\<close> allocate what \<^verbatim>\<open>JSON.parse\<close> returns, run the
  pass on it and return the reference.
\<close>

definition iterativeReplaceS ::
  "('s, 'h) env \<Rightarrow> nat \<Rightarrow> ('s, 'h) cell list \<Rightarrow> (error + unit) \<times> ('s, 'h) cell list" where
  "iterativeReplaceS env j s =
     (case iterativeReplace env (readTree s j) of
        Inl e \<Rightarrow> (Inl e, s)
      | Inr json \<Rightarrow> (Inr (), s[j := Tree json]))"

definition parseQueryFieldsS ::
  "('s, 'h) env \<Rightarrow> param \<Rightarrow> ('s, 'h) cell list \<Rightarrow> (error + nat) \<times> ('s, 'h) cell list" where
  "parseQueryFieldsS env query s =
     (case JSON_parse env (unescapeEscapedQuery env query) of
        Inl m \<Rightarrow> (Inl (SyntaxError m), s)
      | Inr parsed \<Rightarrow>
          (let json = length s in
           case iterativeReplaceS env json (s @ [Tree parsed]) of
             (Inl e, s') \<Rightarrow> (Inl e, s')
           | (Inr _, s') \<Rightarrow> (Inr json, s')))"

definition parseIncludeFieldsS ::
  "('s, 'h) env \<Rightarrow> param \<Rightarrow> ('s, 'h) cell list \<Rightarrow> (error + nat) \<times> ('s, 'h) cell list" where
  "parseIncludeFieldsS env query s =
     (case JSON_parse env (unescapeEscapedQuery env query) of
        Inl m \<Rightarrow> (Inl (SyntaxError m), s)
      | Inr parsed \<Rightarrow>
          (let json = length s in
           case iterativeReplaceS env json (s @ [Tree parsed]) of
             (Inl e, s') \<Rightarrow> (Inl e, s')
           | (Inr _, s') \<Rightarrow> (Inr json, s')))"

text \<open>
  The body of the loop of \<^verbatim>\<open>parse\<close>: \<open>d\<close> is the reference held by \<^verbatim>\<open>dbQuery\<close>, and \<open>ol\<close> are the
  variables \<^verbatim>\<open>offset\<close> and \<^verbatim>\<open>limit\<close>.
\<close>

definition switchS ::
  "('s, 'h) env \<Rightarrow> nat \<Rightarrow> string \<times> param \<Rightarrow> number \<times> number \<Rightarrow> ('s, 'h) cell list \<Rightarrow>
   (error + number \<times> number) \<times> ('s, 'h) cell list" where
  "switchS env d p ol s =
     (let key = fst p; v = snd p in
      if key = ''fields'' then
        (case v of
           Repeated _ \<Rightarrow> (Inl (TypeError ''req.query.fields.split is not a function''), s)
         | Single str \<Rightarrow>
             (let fields = split_on CHR '','' [] str in
              if length fields > 0
              then (Inr ol, writeQuery (\<lambda>q. q\<lparr>attributes := Some fields\<rparr>) d s)
              else (Inr ol, s)))
      else if key = ''limit'' then
        (let l = Math_min (Math_max (parseInt env (toString v)) (Finite 1)) pageSizeLimit in
         (Inr (fst ol, l), writeQuery (\<lambda>q. q\<lparr>limit := l\<rparr>) d s))
      else if key = ''offset'' then
        (Inr (Math_max (parseInt env (toString v)) (Finite 0), snd ol), s)
      else if key = ''sort_by'' then
        (Inr ol, writeQuery (\<lambda>q. q\<lparr>order' := Some (parseFields v)\<rparr>) d s)
      else if key = ''group_by'' then
        (Inr ol, writeQuery (\<lambda>q. q\<lparr>group' := Some (parseFields v)\<rparr>) d s)
      else if key = ''query'' then
        (case parseQueryFieldsS env v s of
           (Inl e, s') \<Rightarrow> (Inl e, s')
         | (Inr json, s') \<Rightarrow>
             (Inr ol,
              writeQuery (\<lambda>q. q\<lparr>where' := spread (where' q) (ownProperties (readTree s' json))\<rparr>) d s'))
      else if key = ''include'' then
        (case parseIncludeFieldsS env v s of
           (Inl e, s') \<Rightarrow> (Inl e, s')
         | (Inr json, s') \<Rightarrow>
             (Inr ol, writeQuery (\<lambda>q. q\<lparr>include' := Some (readTree s' json)\<rparr>) d s'))
      else
        (case parseQueryParam env v of
           Inl e \<Rightarrow> (Inl e, s)
         | Inr x \<Rightarrow>
             (Inr ol, writeQuery (\<lambda>q. q\<lparr>where' := assign (Name key) x (where' q)\<rparr>) d s)))"

text \<open>
  The loop takes the names of \<^verbatim>\<open>req.query\<close> (the object behind \<open>r\<close>) and reads the value
  \<^verbatim>\<open>req.query[key]\<close> from the store when it comes to the name.
\<close>

fun forInS ::
  "('s, 'h) env \<Rightarrow> nat \<Rightarrow> nat \<Rightarrow> string list \<Rightarrow> number \<times> number \<Rightarrow> ('s, 'h) cell list \<Rightarrow>
   (error + number \<times> number) \<times> ('s, 'h) cell list" where
  "forInS env r d [] ol s = (Inr ol, s)"
| "forInS env r d (key # keys) ol s =
     (case map_of (readParams s r) key of
        None \<Rightarrow> forInS env r d keys ol s
      | Some v \<Rightarrow>
          (case switchS env d (key, v) ol s of
             (Inl e, s') \<Rightarrow> (Inl e, s')
           | (Inr ol', s') \<Rightarrow> forInS env r d keys ol' s'))"

definition parseS ::
  "('s, 'h) env \<Rightarrow> nat \<Rightarrow> ('s, 'h) cell list \<Rightarrow> (failure list + nat) \<times> ('s, 'h) cell list" where
  "parseS env r s =
     (let d = length s;
          s0 = s @ [Query (dbQuery initial)]
      in case forInS env r d (map fst (readParams s0 r)) (Finite 0, pageSizeLimit) s0 of
           (Inl e, s') \<Rightarrow> (Inl [\<lparr>msg = message e\<rparr>], s')
         | (Inr ol, s') \<Rightarrow> (Inr d, writeQuery (\<lambda>q. q\<lparr>offset := multiply (fst ol) (snd ol)\<rparr>) d s'))"

section \<open>Well-formed inputs and a sample environment\<close>

text \<open>
  What \<^verbatim>\<open>JSON.parse\<close> returns: every property name is a string, no object has a name twice,
  and there is no \<^verbatim>\<open>undefined\<close> and no value of the collaborator inside.
\<close>

fun isName :: "'s key \<Rightarrow> bool" where
  "isName (Name _) = True"
| "isName (Sym _) = False"

fun fromJSON :: "('s, 'h) json \<Rightarrow> bool" where
  "fromJSON Undefined = False"
| "fromJSON (Handle _) = False"
| "fromJSON (Obj kvs) =
     (distinct (map fst kvs) \<and> list_all (\<lambda>p. isName (fst p) \<and> fromJSON (snd p)) kvs)"
| "fromJSON (Arr vs) = list_all fromJSON vs"
| "fromJSON _ = True"

text \<open>
  A sample environment for concrete runs. Its symbols are named by strings, as
  \<^verbatim>\<open>Symbol.for\<close> names them; its collaborator knows the entity \<^verbatim>\<open>Role\<close>; its \<^verbatim>\<open>JSON.parse\<close>
  knows three texts and rejects the others; its \<^verbatim>\<open>unescape\<close> is right on the texts without a
  percent sign; its \<^verbatim>\<open>parseInt\<close> reads an optional sign and decimal digits.
\<close>

definition sample_JSON_parse :: "string \<Rightarrow> string + (string, string) json" where
  "sample_JSON_parse s =
     (if s = ''{\"or\":[{\"and\":[{\"firstName\":\"A\"},{\"id\":1}]}]}'' then
        Inr (Obj [(Name ''or'',
               Arr [Obj [(Name ''and'',
                      Arr [Obj [(Name ''firstName'', Str ''A'')], Obj [(Name ''id'', Num 1)]])]])])
      else if s = ''{\"model\":\"Role\",\"where\":{\"name\":\"admin\"}}'' then
        Inr (Obj [(Name ''model'', Str ''Role''),
                  (Name ''where'', Obj [(Name ''name'', Str ''admin'')])])
      else if s = ''{\"id\":7}'' then Inr (Obj [(Name ''id'', Num 7)])
      else Inl ''Unexpected token'')"

definition isDigit :: "char \<Rightarrow> bool" where
  "isDigit c = (48 \<le> (of_char c :: nat) \<and> (of_char c :: nat) \<le> 57)"

definition digitsValue :: "string \<Rightarrow> int" where
  "digitsValue ds = foldl (\<lambda>a c. 10 * a + (int (of_char c) - 48)) 0 ds"

definition sample_parseInt :: "string \<Rightarrow> number" where
  "sample_parseInt s =
     (let negative = (take 1 s = ''-'');
          body = (if take 1 s = ''-'' \<or> take 1 s = ''+'' then drop 1 s else s);
          ds = takeWhile isDigit body
      in if ds = [] then NaN else Finite ((if negative then - 1 else 1) * digitsValue ds))"

definition sample_env :: "(string, string) env" where
  "sample_env =
     \<lparr>Op = (\<lambda>name. name),
      db = (\<lambda>v. if v = Str ''Role'' then Some ''RoleModel'' else None),
      JSON_parse = sample_JSON_parse,
      unescape = (\<lambda>s. s),
      parseInt = sample_parseInt\<rparr>"

section \<open>Notions used in the statements\<close>

text \<open>The names that the loop of \<^verbatim>\<open>parse\<close> handles in a case of their own.\<close>

definition reservedKeys :: "string list" where
  "reservedKeys = [''fields'', ''limit'', ''offset'', ''sort_by'', ''group_by'', ''query'', ''include'']"

text \<open>
  What the rewrite pass leaves for a value, and for the value of one property: an object is
  passed through the pass, the scalar under \<^verbatim>\<open>model\<close> that the collaborator knows becomes
  what it resolves to, and any other scalar is as before.
\<close>

definition rewritten :: "('s, 'h) env \<Rightarrow> ('s, 'h) json \<Rightarrow> ('s, 'h) json" where
  "rewritten env v = (case iterativeReplace env v of Inl _ \<Rightarrow> v | Inr v' \<Rightarrow> v')"

definition newValue :: "('s, 'h) env \<Rightarrow> string \<Rightarrow> ('s, 'h) json \<Rightarrow> ('s, 'h) json" where
  "newValue env k v =
     (if v \<noteq> Null \<and> typeof v = ''object'' then rewritten env v
      else if k = ''model'' \<and> db env v \<noteq> None then Handle (the (db env v))
      else v)"

text \<open>
  The properties of an object after the pass: those that keep their name, in their order,
  and after them those that are now under an operator symbol, in the order of the visit.
\<close>

fun kept :: "('s, 'h) env \<Rightarrow> ('s key \<times> ('s, 'h) json) list \<Rightarrow> ('s key \<times> ('s, 'h) json) list" where
  "kept env [] = []"
| "kept env ((Sym s, v) # es) = (Sym s, v) # kept env es"
| "kept env ((Name k, v) # es) =
     (case map_of (operators env) k of
        Some op \<Rightarrow> kept env es
      | None \<Rightarrow> (Name k, newValue env k v) # kept env es)"

fun renamed :: "('s, 'h) env \<Rightarrow> ('s key \<times> ('s, 'h) json) list \<Rightarrow> ('s key \<times> ('s, 'h) json) list" where
  "renamed env [] = []"
| "renamed env ((Sym s, v) # es) = renamed env es"
| "renamed env ((Name k, v) # es) =
     (case map_of (operators env) k of
        Some op \<Rightarrow> (Sym op, newValue env k v) # renamed env es
      | None \<Rightarrow> renamed env es)"


text \<open>
  What a call on a store was settled with: the failures of a rejection, or the query object
  behind the reference it resolved with.
\<close>

fun settled :: "failure list + nat \<Rightarrow> ('s, 'h) cell list \<Rightarrow> (failure list + ('s, 'h) dbQuery) option" where
  "settled (Inl fs) s = Some (Inl fs)"
| "settled (Inr d) s = map_option Inr (readQuery s d)"

text \<open>Two stores that differ at most in the cell \<open>d\<close> and in the cells that the second has more.\<close>

definition sameExcept :: "nat \<Rightarrow> ('s, 'h) cell list \<Rightarrow> ('s, 'h) cell list \<Rightarrow> bool" where
  "sameExcept d s s' = (length s \<le> length s' \<and> (\<forall>a<length s. a \<noteq> d \<longrightarrow> s' ! a = s ! a))"

section \<open>Splitting strings\<close>

lemma split_on_nonempty: "split_on sep cur s \<noteq> []"
  by (induction s arbitrary: cur) auto

lemma split_on_no_sep: "sep \<notin> set s \<Longrightarrow> split_on sep cur s = [cur @ s]"
  by (induction s arbitrary: cur) auto

lemma split_on_sep: "sep \<in> set s \<Longrightarrow> \<exists>x y zs. split_on sep cur s = x # y # zs"
proof (induction s arbitrary: cur)
  case Nil
  then show ?case by simp
next
  case (Cons c cs)
  show ?case
  proof (cases "c = sep")
    case True
    obtain y zs where "split_on sep [] cs = y # zs"
      using split_on_nonempty [of sep "[]" cs] by (cases "split_on sep [] cs") auto
    with True show ?thesis by simp
  next
    case False
    with Cons.prems have "sep \<in> set cs" by simp
    from Cons.IH [OF this, of "cur @ [c]"] False show ?thesis by simp
  qed
qed






lemma takeWhile_all: "\<forall>c\<in>set rest. \<not> isLineTerminator c \<Longrightarrow> takeWhile (\<lambda>d. \<not> isLineTerminator d) rest = rest"
  by (induction rest) auto

lemma dropWhile_all: "\<forall>c\<in>set rest. \<not> isLineTerminator c \<Longrightarrow> dropWhile (\<lambda>d. \<not> isLineTerminator d) rest = []"
  by (induction rest) auto

lemma split_colon_first:
  "CHR '':'' \<notin> set name \<Longrightarrow> rest \<noteq> [] \<Longrightarrow> \<forall>c\<in>set rest. \<not> isLineTerminator c \<Longrightarrow>
   split_colon cur (name @ CHR '':'' # rest) = [cur @ name, rest, []]"
  by (induction name arbitrary: cur) (auto simp: takeWhile_all dropWhile_all)


lemma operators_model: "map_of (operators env) ''model'' = None"
  by (simp add: operators_def)

lemma table_inj:
  assumes "distinct (map snd xs)" "map_of xs k = Some op" "map_of xs k' = Some op"
  shows "k = k'"
proof -
  have "(k, op) \<in> set xs" "(k', op) \<in> set xs" using assms(2,3) by (auto dest: map_of_SomeD)
  moreover have "inj_on snd (set xs)" using assms(1) by (simp add: distinct_map)
  ultimately have "(k, op) = (k', op)" by (intro inj_onD [of snd "set xs"]) simp_all
  then show ?thesis by simp
qed

section \<open>Reading and writing properties\<close>


lemma get_middle: "k \<notin> fst ` set A \<Longrightarrow> get (A @ (k, v) # R) k = v"
  by (induction A) (auto simp: get_def)

lemma delete_absent: "k \<notin> fst ` set xs \<Longrightarrow> delete k xs = xs"
  by (induction xs) (auto simp: delete_def)

lemma delete_middle:
  "k \<notin> fst ` set A \<Longrightarrow> k \<notin> fst ` set R \<Longrightarrow> delete k (A @ (k, v) # R) = A @ R"
  using delete_absent [of k A] delete_absent [of k R] by (simp add: delete_def)

lemma assign_new: "k \<notin> fst ` set xs \<Longrightarrow> assign k v xs = xs @ [(k, v)]"
  by (induction xs) auto

lemma assign_middle: "k \<notin> fst ` set A \<Longrightarrow> assign k v (A @ (k, w) # R) = A @ (k, v) # R"
  by (induction A) auto

section \<open>The rewrite pass\<close>

text \<open>
  The pass fails on \<^verbatim>\<open>null\<close> and \<^verbatim>\<open>undefined\<close> only; its loops never fail, since they
  descend into objects only.
\<close>

lemma typeof_object_iff:
  "(v \<noteq> Null \<and> typeof v = ''object'') = ((\<exists>vs. v = Arr vs) \<or> (\<exists>kvs. v = Obj kvs))"
  by (cases v) auto

lemma iterativeReplace_total:
  "v \<noteq> Null \<Longrightarrow> v \<noteq> Undefined \<Longrightarrow> \<exists>v'. iterativeReplace env v = Inr v'"
  "\<exists>json'. forEach env keys json = Inr json'"
  "\<exists>vs'. forEachIndex env vs = Inr vs'"
proof (induction env v and env keys json and env vs rule: iterativeReplace_forEach_forEachIndex.induct)
  case (11 env k v keys json)
  show ?case
  proof (cases "v \<noteq> Null \<and> typeof v = ''object''")
    case True
    then have nn: "v \<noteq> Null" "v \<noteq> Undefined" by auto
    show ?thesis
    proof (cases "map_of (operators env) k")
      case None
      from "11.IH"(1) [OF True None nn] obtain v' where v': "iterativeReplace env v = Inr v'" by blast
      from "11.IH"(2) [OF True None v'] True None v' show ?thesis by simp
    next
      case (Some op)
      from "11.IH"(3) [OF True Some nn] obtain v' where v': "iterativeReplace env v = Inr v'" by blast
      from "11.IH"(4) [OF True Some v'] True Some v' show ?thesis by simp
    qed
  next
    case False
    with "11.IH"(5,6,7) show ?thesis by (cases "map_of (operators env) k") auto
  qed
next
  case (13 env v vs)
  then show ?case by (cases "v \<noteq> Null \<and> typeof v = ''object''") (auto split: sum.splits simp: typeof_object_iff)
qed auto

text \<open>
  The state of the loop over an object whose names are all different: the properties
  before the listing (\<open>A\<close>), what is left of the listing, and the properties after it
  (\<open>B\<close>). A visit leaves a property where it is or moves it to the end.
\<close>

lemma forEach_state:
  assumes "distinct (map fst (A @ es @ B) @ map fst (renamed env es))"
  shows "forEach env es (A @ es @ B) = Inr (A @ kept env es @ B @ renamed env es)"
  using assms
proof (induction es arbitrary: A B)
  case Nil
  then show ?case by simp
next
  case (Cons e es)
  obtain key v where e: "e = (key, v)" by (cases e)
  show ?case
  proof (cases key)
    case (Sym s)
    have "distinct (map fst ((A @ [(Sym s, v)]) @ es @ B) @ map fst (renamed env es))"
      using Cons.prems e Sym by simp
    from Cons.IH [OF this] e Sym show ?thesis by simp
  next
    case (Name k)
    have kA: "Name k \<notin> fst ` set A" and kR: "Name k \<notin> fst ` set (es @ B)"
      using Cons.prems e Name by auto
    show ?thesis
    proof (cases "map_of (operators env) k")
      case None
      have d: "distinct (map fst ((A @ [(Name k, w)]) @ es @ B) @ map fst (renamed env es))" for w
        using Cons.prems e Name None by simp
      have a: "assign (Name k) w (A @ (Name k, v) # es @ B) = (A @ [(Name k, w)]) @ es @ B" for w
        using assign_middle [OF kA] by simp
      show ?thesis
      proof (cases "v \<noteq> Null \<and> typeof v = ''object''")
        case True
        then obtain v' where v': "iterativeReplace env v = Inr v'"
          using iterativeReplace_total(1) [of v env] by (auto simp: typeof_object_iff)
        then have nv: "newValue env k v = v'" using True by (simp add: newValue_def rewritten_def)
        from Cons.IH [OF d [of v']] e Name None True v' nv a [of v'] show ?thesis by simp
      next
        case False
        show ?thesis
        proof (cases "k = ''model'' \<and> db env v \<noteq> None")
          case True
          then have nv: "newValue env k v = Handle (the (db env v))"
            using False by (auto simp: newValue_def)
          from Cons.IH [OF d [of "Handle (the (db env v))"]] e Name None False True nv
            a [of "Handle (the (db env v))"]
          show ?thesis by auto
        next
          case F2: False
          then have nv: "newValue env k v = v" using False by (auto simp: newValue_def)
          from Cons.IH [OF d [of v]] e Name None False F2 nv show ?thesis by auto
        qed
      qed
    next
      case (Some op)
      have sN: "Sym op \<notin> fst ` set (A @ es @ B)"
        using Cons.prems e Name Some by auto
      have d: "distinct (map fst (A @ es @ (B @ [(Sym op, w)])) @ map fst (renamed env es))" for w
        using Cons.prems e Name Some by auto
      have r: "replaceKeyWithOperator (A @ (Name k, v) # es @ B) (Name k) (Sym op)
                 = A @ es @ B @ [(Sym op, v)]"
        using get_middle [OF kA, of v "es @ B"] delete_middle [OF kA kR, of v] assign_new [OF sN, of v]
        by (simp add: replaceKeyWithOperator_def)
      have a: "assign (Sym op) w (A @ es @ B @ [(Sym op, v)]) = A @ es @ B @ [(Sym op, w)]" for w
        using assign_middle [of "Sym op" "A @ es @ B" w v "[]"] sN by simp
      have km: "k \<noteq> ''model''" using Some operators_model [of env] by auto
      show ?thesis
      proof (cases "v \<noteq> Null \<and> typeof v = ''object''")
        case True
        then obtain v' where v': "iterativeReplace env v = Inr v'"
          using iterativeReplace_total(1) [of v env] by (auto simp: typeof_object_iff)
        then have nv: "newValue env k v = v'" using True by (simp add: newValue_def rewritten_def)
        from Cons.IH [OF d [of v']] e Name Some True v' nv r a [of v'] show ?thesis by simp
      next
        case False
        then have nv: "newValue env k v = v" using km by (auto simp: newValue_def)
        from Cons.IH [OF d [of v]] e Name Some False km nv r show ?thesis by auto
      qed
    qed
  qed
qed

lemma renamed_elem:
  "x \<in> set (renamed env es) \<Longrightarrow>
   \<exists>k v op. (Name k, v) \<in> set es \<and> map_of (operators env) k = Some op \<and> x = (Sym op, newValue env k v)"
  by (induction env es rule: renamed.induct) (auto split: option.splits)

lemma kept_elem:
  "x \<in> set (kept env es) \<Longrightarrow>
   (\<exists>s v. x = (Sym s, v) \<and> x \<in> set es) \<or>
   (\<exists>k v. (Name k, v) \<in> set es \<and> map_of (operators env) k = None \<and> x = (Name k, newValue env k v))"
  by (induction env es rule: kept.induct) (auto split: option.splits)



lemma kept_fst_subset: "fst ` set (kept env es) \<subseteq> fst ` set es"
  using kept_elem [of _ env es] by force

lemma distinct_kept: "distinct (map fst es) \<Longrightarrow> distinct (map fst (kept env es))"
proof (induction env es rule: kept.induct)
  case (3 env k v es)
  then show ?case using kept_fst_subset [of env es] by (auto split: option.splits)
next
  case (2 env s v es)
  then show ?case using kept_fst_subset [of env es] by auto
qed simp

lemma distinct_renamed:
  "distinct (map fst es) \<Longrightarrow> distinct (map snd (operators env)) \<Longrightarrow>
   distinct (map fst (renamed env es))"
proof (induction env es rule: renamed.induct)
  case (3 env k v es)
  show ?case
  proof (cases "map_of (operators env) k")
    case None
    with 3 show ?thesis by simp
  next
    case (Some op)
    have "Sym op \<notin> fst ` set (renamed env es)"
    proof
      assume "Sym op \<in> fst ` set (renamed env es)"
      then obtain x where x: "x \<in> set (renamed env es)" "fst x = Sym op" by auto
      from renamed_elem [OF x(1)] x(2) obtain k' v' where
        k': "(Name k', v') \<in> set es" "map_of (operators env) k' = Some op" by auto
      from table_inj [OF "3.prems"(2) Some k'(2)] have "k = k'" .
      with k'(1) "3.prems"(1) show False by force
    qed
    with 3 Some show ?thesis by simp
  qed
qed simp_all

lemma renamed_syms: "x \<in> set (renamed env es) \<Longrightarrow> \<not> isName (fst x)"
  using renamed_elem [of x env es] by auto

lemma names_renamed_disjoint:
  assumes "list_all (\<lambda>p. isName (fst p)) xs"
  shows "fst ` set xs \<inter> fst ` set (renamed env es) = {}"
proof -
  have False if "x \<in> set xs" "y \<in> set (renamed env es)" "fst x = fst y" for x y
    using that assms renamed_syms [of y env es] by (auto simp: list_all_iff)
  then show ?thesis by blast
qed

lemma distinct_state:
  assumes "distinct (map fst kvs)" "list_all (\<lambda>p. isName (fst p)) kvs"
    "distinct (map snd (operators env))"
  shows "distinct (map fst kvs @ map fst (renamed env kvs))"
proof -
  have "fst ` set kvs \<inter> fst ` set (renamed env kvs) = {}"
    using assms(2) renamed_syms [of _ env kvs] by (fastforce simp: list_all_iff)
  with assms(1) distinct_renamed [OF assms(1,3)] show ?thesis by simp
qed

lemma iterativeReplace_Obj:
  assumes "distinct (map fst kvs)" "list_all (\<lambda>p. isName (fst p)) kvs"
    "distinct (map snd (operators env))"
  shows "iterativeReplace env (Obj kvs) = Inr (Obj (kept env kvs @ renamed env kvs))"
  using forEach_state [of "[]" kvs "[]" env] distinct_state [OF assms] by simp


lemma distinct_result:
  assumes "distinct (map fst kvs)" "list_all (\<lambda>p. isName (fst p)) kvs"
    "distinct (map snd (operators env))"
  shows "distinct (map fst (kept env kvs @ renamed env kvs))"
proof -
  have "fst ` set (kept env kvs) \<inter> fst ` set (renamed env kvs) = {}"
    using assms(2) renamed_syms [of _ env kvs] kept_fst_subset [of env kvs]
    by (fastforce simp: list_all_iff)
  with distinct_kept [OF assms(1)] distinct_renamed [OF assms(1,3)] show ?thesis by simp
qed

text \<open>
  When a name is visited, the object still has under it the value that the name had when
  the names were listed: this is why \<open>forEach\<close> may read the value from the listing.
\<close>

lemma forEach_reads_listed_value:
  assumes "distinct (map fst (pre @ (Name k, v) # post))"
    "list_all (\<lambda>p. isName (fst p)) (pre @ (Name k, v) # post)"
    "distinct (map snd (operators env))"
  shows "\<exists>json. forEach env pre (pre @ (Name k, v) # post) = Inr json \<and> get json (Name k) = v"
proof -
  have dr: "distinct (map fst (renamed env pre))"
    using assms(1,3) by (intro distinct_renamed) simp_all
  have "fst ` set (pre @ (Name k, v) # post) \<inter> fst ` set (renamed env pre) = {}"
    by (rule names_renamed_disjoint [OF assms(2)])
  with assms(1) dr
  have "distinct (map fst ([] @ pre @ (Name k, v) # post) @ map fst (renamed env pre))"
    by (auto simp: image_Un)
  from forEach_state [OF this]
  have r: "forEach env pre (pre @ (Name k, v) # post)
             = Inr (kept env pre @ (Name k, v) # post @ renamed env pre)" by simp
  have "Name k \<notin> fst ` set (kept env pre)"
    using kept_fst_subset [of env pre] assms(1) by auto
  from get_middle [OF this] r show ?thesis by simp
qed



lemma iterativeReplace_distinct:
  assumes "fromJSON (Obj kvs)" "distinct (map snd (operators env))"
  shows "\<exists>json. iterativeReplace env (Obj kvs) = Inr (Obj json) \<and>
           distinct (map fst (ownProperties (Obj json)))"
proof -
  have d: "distinct (map fst kvs)" and n: "list_all (\<lambda>p. isName (fst p)) kvs"
    using assms(1) by (auto simp: list_all_iff)
  from iterativeReplace_Obj [OF d n assms(2)] distinct_result [OF d n assms(2)]
  show ?thesis by simp
qed

section \<open>Filter expressions\<close>


text \<open>
  With a left side that the table does not have, the property is named \<^verbatim>\<open>undefined\<close>.
\<close>

lemma parseQueryParam_unknown_operator:
  assumes "map_of (operators env) name = None" "CHR '':'' \<notin> set name" "rest \<noteq> []"
    "\<forall>c\<in>set rest. \<not> isLineTerminator c"
  shows "parseQueryParam env (Single (name @ '':'' @ rest)) =
     Inr (Obj [(Name ''undefined'',
                if CHR '','' \<in> set rest then Arr (map Str (split_on CHR '','' [] rest)) else Str rest)])"
proof -
  have sp: "split_colon [] (name @ '':'' @ rest) = [name, rest, []]"
    using split_colon_first [OF assms(2,3,4), of "[]"] by simp
  show ?thesis
  proof (cases "CHR '','' \<in> set rest")
    case True
    then obtain x y zs where "split_on CHR '','' [] rest = x # y # zs"
      using split_on_sep by blast
    with True sp assms(1) show ?thesis by (simp add: operatorKey_def)
  next
    case False
    with sp assms(1) show ?thesis by (simp add: operatorKey_def split_on_no_sep)
  qed
qed

lemma switch_default:
  "key \<notin> set reservedKeys \<Longrightarrow>
   switch env (key, v) st =
     (case parseQueryParam env v of
        Inl e \<Rightarrow> Inl e
      | Inr p \<Rightarrow>
          Inr (st\<lparr>dbQuery := (dbQuery st)
                \<lparr>where' := assign (Name key) p (where' (dbQuery st))\<rparr>\<rparr>))"
  by (simp add: switch_def reservedKeys_def)



section \<open>The loop over the parameters\<close>

lemma map_of_assign: "map_of (assign k v obj) = (map_of obj)(k \<mapsto> v)"
  by (induction obj) auto

lemma map_of_spread:
  "map_of (spread a b) k = (case map_of (rev b) k of None \<Rightarrow> map_of a k | Some x \<Rightarrow> Some x)"
proof (induction b arbitrary: a)
  case Nil
  then show ?case by (simp add: spread_def)
next
  case (Cons p ps)
  obtain n x where p: "p = (n, x)" by (cases p)
  have "spread a (p # ps) = spread (assign n x a) ps" by (simp add: spread_def p)
  with Cons [of "assign n x a"] show ?case
    by (simp add: p map_of_assign map_add_def split: option.splits)
qed

lemma switch_query:
  "switch env (''query'', v) st =
     (case parseQueryFields env v of
        Inl e \<Rightarrow> Inl e
      | Inr p \<Rightarrow>
          Inr (st\<lparr>dbQuery := (dbQuery st)
                \<lparr>where' := spread (where' (dbQuery st)) (ownProperties p)\<rparr>\<rparr>))"
  by (simp add: switch_def)







lemma forIn_append:
  "forIn env (pre @ post) st =
     (case forIn env pre st of Inl e \<Rightarrow> Inl e | Inr st' \<Rightarrow> forIn env post st')"
  by (induction pre arbitrary: st) (auto split: sum.splits)

lemma forIn_fails:
  "p \<in> set ps \<Longrightarrow> \<forall>st. \<exists>e. switch env p st = Inl e \<Longrightarrow> \<exists>e. forIn env ps st = Inl e"
proof (induction ps arbitrary: st)
  case Nil
  then show ?case by simp
next
  case (Cons a ps)
  show ?case
  proof (cases "switch env a st")
    case (Inl e)
    then show ?thesis by simp
  next
    case (Inr st1)
    with Cons.prems(2) have "a \<noteq> p" by (metis Inl_Inr_False)
    with Cons.prems(1) have "p \<in> set ps" by simp
    from Cons.IH [OF this Cons.prems(2)] Inr show ?thesis by simp
  qed
qed

lemma parse_first_error:
  "forIn env pre initial = Inr st \<Longrightarrow> switch env p st = Inl e \<Longrightarrow>
   parse env (pre @ p # post) = Inl [\<lparr>msg = message e\<rparr>]"
  by (simp add: parse_def forIn_append)

lemma parse_fails:
  "p \<in> set query \<Longrightarrow> \<forall>st. \<exists>e. switch env p st = Inl e \<Longrightarrow> \<exists>m. parse env query = Inl [\<lparr>msg = m\<rparr>]"
  using forIn_fails [of p query env initial] by (auto simp: parse_def)

lemma switch_malformed:
  assumes "key = ''query'' \<or> key = ''include''"
    "JSON_parse env (unescape env (toString v)) = Inl m"
  shows "switch env (key, v) st = Inl (SyntaxError m)"
  using assms
  by (auto simp: switch_def parseQueryFields_def parseIncludeFields_def unescapeEscapedQuery_def)

lemma splitStringAndBuildArray_append:
  "splitStringAndBuildArray obj array =
     array @ map (split_on CHR ''.'' []) (split_on CHR '','' [] obj)"
proof -
  have "fold (\<lambda>element arr. arr @ [g element]) es arr = arr @ map g es" for g :: "string \<Rightarrow> string list" and es arr
    by (induction es arbitrary: arr) auto
  then show ?thesis by (simp add: splitStringAndBuildArray_def)
qed

lemma parseFields_Repeated:
  "parseFields (Repeated xs) =
     concat (map (\<lambda>x. map (split_on CHR ''.'' []) (split_on CHR '','' [] x)) xs)"
proof -
  have "fold splitStringAndBuildArray xs acc =
          acc @ concat (map (\<lambda>x. map (split_on CHR ''.'' []) (split_on CHR '','' [] x)) xs)" for acc
    by (induction xs arbitrary: acc) (auto simp: splitStringAndBuildArray_append)
  from this [of "[]"] show ?thesis by simp
qed

lemma switch_fields_Repeated: "\<exists>e. switch env (''fields'', Repeated xs) st = Inl e"
  by (simp add: switch_def)

lemma switch_default_Repeated:
  "key \<notin> set reservedKeys \<Longrightarrow> \<exists>e. switch env (key, Repeated xs) st = Inl e"
  by (simp add: switch_default)

section \<open>The translator on a store\<close>

text \<open>
  Each step on the store does to the query object what the step without a store does,
  writes no cell but that of the query object, and allocates.
\<close>

lemma sameExcept_refl: "sameExcept d s s"
  by (simp add: sameExcept_def)

lemma sameExcept_trans: "sameExcept d s s' \<Longrightarrow> sameExcept d s' s'' \<Longrightarrow> sameExcept d s s''"
  by (auto simp: sameExcept_def)

lemma sameExcept_append: "sameExcept d s (s @ xs)"
  by (simp add: sameExcept_def nth_append)

lemma writeQuery_Query:
  "d < length s \<Longrightarrow> s ! d = Query q \<Longrightarrow> writeQuery f d s = s[d := Query (f q)]"
  by (simp add: writeQuery_def readQuery_def)

lemma sameExcept_update: "sameExcept d s (s[d := c])"
  by (simp add: sameExcept_def)

lemma parseQueryFieldsS_sim:
  "\<exists>s'. sameExcept d s s' \<and> (d < length s \<longrightarrow> s' ! d = s ! d) \<and>
     (case parseQueryFields env v of
        Inl e \<Rightarrow> parseQueryFieldsS env v s = (Inl e, s')
      | Inr json \<Rightarrow> parseQueryFieldsS env v s = (Inr (length s), s') \<and> length s < length s' \<and>
          readTree s' (length s) = json)"
proof (cases "JSON_parse env (unescapeEscapedQuery env v)")
  case (Inl m)
  then show ?thesis
    by (intro exI [of _ s]) (simp add: parseQueryFields_def parseQueryFieldsS_def sameExcept_refl)
next
  case (Inr parsed)
  have rt: "readTree (s @ [Tree parsed]) (length s) = parsed" by (simp add: readTree_def)
  show ?thesis
  proof (cases "iterativeReplace env parsed")
    case (Inl e)
    with Inr rt show ?thesis
      by (intro exI [of _ "s @ [Tree parsed]"])
        (simp add: parseQueryFields_def parseQueryFieldsS_def iterativeReplaceS_def
          sameExcept_append nth_append)
  next
    case r: (Inr json)
    with Inr rt show ?thesis
      by (intro exI [of _ "s @ [Tree json]"])
        (simp add: parseQueryFields_def parseQueryFieldsS_def iterativeReplaceS_def
          sameExcept_append nth_append readTree_def)
  qed
qed

lemma parseIncludeFieldsS_sim:
  "\<exists>s'. sameExcept d s s' \<and> (d < length s \<longrightarrow> s' ! d = s ! d) \<and>
     (case parseIncludeFields env v of
        Inl e \<Rightarrow> parseIncludeFieldsS env v s = (Inl e, s')
      | Inr json \<Rightarrow> parseIncludeFieldsS env v s = (Inr (length s), s') \<and> length s < length s' \<and>
          readTree s' (length s) = json)"
proof -
  have a: "parseIncludeFieldsS env v s = parseQueryFieldsS env v s"
    by (simp add: parseIncludeFieldsS_def parseQueryFieldsS_def)
  have b: "parseIncludeFields env v = parseQueryFields env v"
    by (simp add: parseIncludeFields_def parseQueryFields_def)
  show ?thesis unfolding a b by (rule parseQueryFieldsS_sim)
qed

lemma switchS_sim:
  assumes "d < length s" "s ! d = Query q"
  shows "\<exists>res s' q'. switchS env d p (o', l) s = (res, s') \<and> sameExcept d s s' \<and>
           s' ! d = Query q' \<and>
           (case switch env p \<lparr>offset_var = o', limit_var = l, dbQuery = q\<rparr> of
              Inl e \<Rightarrow> res = Inl e
            | Inr st \<Rightarrow> res = Inr (offset_var st, limit_var st) \<and> q' = dbQuery st)"
proof -
  obtain key v where p: "p = (key, v)" by (cases p)
  have w: "writeQuery f d s = s[d := Query (f q)]" for f
    by (rule writeQuery_Query [OF assms])
  consider (fields) "key = ''fields''" | (limit) "key = ''limit''" | (offset) "key = ''offset''"
    | (sort) "key = ''sort_by''" | (group) "key = ''group_by''" | (query) "key = ''query''"
    | (incl) "key = ''include''" | (other) "key \<notin> set reservedKeys"
    by (auto simp: reservedKeys_def)
  then show ?thesis
  proof cases
    case fields
    with p w assms show ?thesis
      by (cases v) (auto simp: switchS_def switch_def sameExcept_update sameExcept_refl Let_def)
  next
    case limit
    with p w assms show ?thesis
      by (auto simp: switchS_def switch_def sameExcept_update Let_def)
  next
    case offset
    with p assms show ?thesis
      by (auto simp: switchS_def switch_def sameExcept_refl)
  next
    case sort
    with p w assms show ?thesis
      by (auto simp: switchS_def switch_def sameExcept_update simp del: parseFields.simps)
  next
    case group
    with p w assms show ?thesis
      by (auto simp: switchS_def switch_def sameExcept_update simp del: parseFields.simps)
  next
    case query
    from parseQueryFieldsS_sim [of d s env v] assms obtain s1 where
      s1: "sameExcept d s s1" "s1 ! d = Query q"
        "case parseQueryFields env v of
           Inl e \<Rightarrow> parseQueryFieldsS env v s = (Inl e, s1)
         | Inr json \<Rightarrow> parseQueryFieldsS env v s = (Inr (length s), s1) \<and> length s < length s1 \<and>
             readTree s1 (length s) = json"
      by auto
    have d1: "d < length s1" using s1(1) assms(1) by (simp add: sameExcept_def)
    have w1: "writeQuery f d s1 = s1[d := Query (f q)]" for f
      by (rule writeQuery_Query [OF d1 s1(2)])
    show ?thesis
    proof (cases "parseQueryFields env v")
      case (Inl e)
      with s1 p query show ?thesis by (auto simp: switchS_def switch_def)
    next
      case (Inr json)
      with s1 p query w1 d1 show ?thesis
        by (auto simp: switchS_def switch_def intro: sameExcept_trans [OF s1(1) sameExcept_update])
    qed
  next
    case incl
    from parseIncludeFieldsS_sim [of d s env v] assms obtain s1 where
      s1: "sameExcept d s s1" "s1 ! d = Query q"
        "case parseIncludeFields env v of
           Inl e \<Rightarrow> parseIncludeFieldsS env v s = (Inl e, s1)
         | Inr json \<Rightarrow> parseIncludeFieldsS env v s = (Inr (length s), s1) \<and> length s < length s1 \<and>
             readTree s1 (length s) = json"
      by auto
    have d1: "d < length s1" using s1(1) assms(1) by (simp add: sameExcept_def)
    have w1: "writeQuery f d s1 = s1[d := Query (f q)]" for f
      by (rule writeQuery_Query [OF d1 s1(2)])
    show ?thesis
    proof (cases "parseIncludeFields env v")
      case (Inl e)
      with s1 p incl show ?thesis by (auto simp: switchS_def switch_def)
    next
      case (Inr json)
      with s1 p incl w1 d1 show ?thesis
        by (auto simp: switchS_def switch_def intro: sameExcept_trans [OF s1(1) sameExcept_update])
    qed
  next
    case other
    then have k: "key \<noteq> ''fields''" "key \<noteq> ''limit''" "key \<noteq> ''offset''" "key \<noteq> ''sort_by''"
      "key \<noteq> ''group_by''" "key \<noteq> ''query''" "key \<noteq> ''include''"
      by (auto simp: reservedKeys_def)
    show ?thesis
    proof (cases "parseQueryParam env v")
      case (Inl e)
      with p k assms show ?thesis by (auto simp: switchS_def switch_def sameExcept_refl)
    next
      case (Inr x)
      with p k w assms show ?thesis by (auto simp: switchS_def switch_def sameExcept_update)
    qed
  qed
qed

lemma entries_of_keys:
  "distinct (map fst q) \<Longrightarrow> map (\<lambda>k. (k, the (map_of q k))) (map fst q) = q"
proof (induction q)
  case Nil
  then show ?case by simp
next
  case (Cons p q)
  have "map (\<lambda>k. (k, the (map_of (p # q) k))) (map fst q) = map (\<lambda>k. (k, the (map_of q k))) (map fst q)"
  proof (rule map_cong [OF refl])
    fix k assume k: "k \<in> set (map fst q)"
    from Cons.prems have "fst p \<notin> set (map fst q)" by simp
    with k have "k \<noteq> fst p" by blast
    then show "(k, the (map_of (p # q) k)) = (k, the (map_of q k))" by (cases p) simp
  qed
  with Cons show ?case by simp
qed

lemma forInS_sim:
  assumes "r < length s" "r \<noteq> d" "s ! r = Params q" "d < length s" "s ! d = Query dq"
    "set keys \<subseteq> fst ` set q"
  shows "\<exists>res s' q'. forInS env r d keys (o', l) s = (res, s') \<and> sameExcept d s s' \<and>
           s' ! d = Query q' \<and>
           (case forIn env (map (\<lambda>k. (k, the (map_of q k))) keys)
                   \<lparr>offset_var = o', limit_var = l, dbQuery = dq\<rparr> of
              Inl e \<Rightarrow> res = Inl e
            | Inr st \<Rightarrow> res = Inr (offset_var st, limit_var st) \<and> q' = dbQuery st)"
  using assms
proof (induction keys arbitrary: s o' l dq)
  case Nil
  then show ?case by (simp add: sameExcept_refl)
next
  case (Cons key keys)
  have rp: "readParams s r = q" using Cons.prems(1,3) by (simp add: readParams_def)
  from Cons.prems(6) obtain v where v: "map_of q key = Some v"
    by (cases "map_of q key") (auto simp: map_of_eq_None_iff)
  let ?st = "\<lparr>offset_var = o', limit_var = l, dbQuery = dq\<rparr>"
  from switchS_sim [OF Cons.prems(4,5), of env "(key, v)" o' l] obtain res1 s1 q1 where
    s1: "switchS env d (key, v) (o', l) s = (res1, s1)" "sameExcept d s s1" "s1 ! d = Query q1"
      "case switch env (key, v) ?st of
         Inl e \<Rightarrow> res1 = Inl e
       | Inr st \<Rightarrow> res1 = Inr (offset_var st, limit_var st) \<and> q1 = dbQuery st"
    by blast
  show ?case
  proof (cases "switch env (key, v) ?st")
    case (Inl e)
    with s1 rp v show ?thesis by auto
  next
    case (Inr st)
    with s1(4) have r1: "res1 = Inr (offset_var st, limit_var st)" and q1: "q1 = dbQuery st" by auto
    have st: "st = \<lparr>offset_var = offset_var st, limit_var = limit_var st, dbQuery = dbQuery st\<rparr>"
      by simp
    have p1: "r < length s1" "s1 ! r = Params q" "d < length s1"
      using s1(2) Cons.prems(1,2,3,4) by (auto simp: sameExcept_def)
    have ks: "set keys \<subseteq> fst ` set q" using Cons.prems(6) by simp
    from Cons.IH [OF p1(1) Cons.prems(2) p1(2,3) _ ks, of "dbQuery st" "offset_var st" "limit_var st"]
      s1(3) q1
    obtain res s' q' where
      r: "forInS env r d keys (offset_var st, limit_var st) s1 = (res, s')" "sameExcept d s1 s'"
        "s' ! d = Query q'"
        "case forIn env (map (\<lambda>k. (k, the (map_of q k))) keys)
                \<lparr>offset_var = offset_var st, limit_var = limit_var st, dbQuery = dbQuery st\<rparr> of
           Inl e \<Rightarrow> res = Inl e
         | Inr st' \<Rightarrow> res = Inr (offset_var st', limit_var st') \<and> q' = dbQuery st'"
      by blast
    have f: "forInS env r d (key # keys) (o', l) s = (res, s')"
      using rp v s1(1) r1 r(1) by simp
    have g: "forIn env (map (\<lambda>k. (k, the (map_of q k))) (key # keys)) ?st =
             forIn env (map (\<lambda>k. (k, the (map_of q k))) keys) st"
      using v Inr by simp
    from f g r(3,4) sameExcept_trans [OF s1(2) r(2)] st show ?thesis
      by (intro exI [of _ res] exI [of _ s'] exI [of _ q']) simp
  qed
qed

lemma parseS_sim:
  assumes "r < length s" "s ! r = Params query" "distinct (map fst query)"
  shows "\<exists>res s'. parseS env r s = (res, s') \<and> length s \<le> length s' \<and>
           take (length s) s' = s \<and> settled res s' = Some (parse env query)"
proof -
  let ?d = "length s"
  let ?s0 = "s @ [Query (dbQuery initial)]"
  have rp: "readParams ?s0 r = query" using assms(1,2) by (simp add: readParams_def nth_append)
  have pre: "r < length ?s0" "r \<noteq> ?d" "?s0 ! r = Params query" "?d < length ?s0"
    "?s0 ! ?d = Query (dbQuery initial)" "set (map fst query) \<subseteq> fst ` set query"
    using assms(1,2) by (auto simp: nth_append)
  have i: "\<lparr>offset_var = Finite 0, limit_var = pageSizeLimit, dbQuery = dbQuery initial\<rparr> = initial"
    by (simp add: initial_def)
  from forInS_sim [OF pre, of env "Finite 0" pageSizeLimit]
  obtain res s' q' where
    r: "forInS env r ?d (map fst query) (Finite 0, pageSizeLimit) ?s0 = (res, s')"
      "sameExcept ?d ?s0 s'" "s' ! ?d = Query q'"
      "case forIn env query initial of
         Inl e \<Rightarrow> res = Inl e
       | Inr st \<Rightarrow> res = Inr (offset_var st, limit_var st) \<and> q' = dbQuery st"
    unfolding entries_of_keys [OF assms(3)] i by blast
  have len: "length s < length s'" using r(2) by (simp add: sameExcept_def)
  have old: "s' ! a = s ! a" if "a < length s" for a
    using that r(2) by (auto simp: sameExcept_def nth_append)
  show ?thesis
  proof (cases "forIn env query initial")
    case (Inl e)
    with r(4) have "res = Inl e" by simp
    with r(1) rp have "parseS env r s = (Inl [\<lparr>msg = message e\<rparr>], s')"
      by (simp add: parseS_def Let_def)
    moreover have "take (length s) s' = s"
      using len old by (intro nth_equalityI) simp_all
    ultimately show ?thesis using len Inl by (simp add: parse_def)
  next
    case (Inr st)
    with r(4) have res: "res = Inr (offset_var st, limit_var st)" and q': "q' = dbQuery st" by auto
    let ?s2 = "s'[?d := Query ((dbQuery st)\<lparr>offset := multiply (offset_var st) (limit_var st)\<rparr>)]"
    have "writeQuery (\<lambda>q. q\<lparr>offset := multiply (offset_var st) (limit_var st)\<rparr>) ?d s' = ?s2"
      using writeQuery_Query [OF len] r(3) q' by simp
    with r(1) rp res have p: "parseS env r s = (Inr ?d, ?s2)"
      by (simp add: parseS_def Let_def)
    have t: "take (length s) ?s2 = s"
      using len old by (intro nth_equalityI) simp_all
    have "settled (Inr ?d) ?s2 = Some (parse env query)"
      using len Inr by (simp add: readQuery_def parse_def)
    with p t len show ?thesis by simp
  qed
qed

section \<open>The claims\<close>








text \<open>
  Claim C4 at the value \<^verbatim>\<open>foo:bar\<close>, whose left side is no operator: the filter is not the
  string \<^verbatim>\<open>foo:bar\<close> but an object with the property \<^verbatim>\<open>undefined\<close>, since
  \<^verbatim>\<open>parseQueryParam\<close> uses what it finds in the table as a property name without looking
  whether it found anything.
\<close>

theorem unknown_operator_yields_undefined_key:
  "map_of (operators sample_env) ''foo'' = None \<and>
   parse sample_env [(''status'', Single ''foo:bar'')] =
     Inr \<lparr>where' = [(Name ''status'', Obj [(Name ''undefined'', Str ''bar'')])], offset = Finite 0,
          limit = Finite 200, attributes = None, order' = None, group' = None, include' = None\<rparr> \<and>
   parse sample_env [(''status'', Single ''foo:bar'')] \<noteq>
     Inr \<lparr>where' = [(Name ''status'', Str ''foo:bar'')], offset = Finite 0, limit = Finite 200,
          attributes = None, order' = None, group' = None, include' = None\<rparr>"
  by (simp add: parse_def switch_def initial_def pageSizeLimit_def isLineTerminator_def
      operatorKey_def operators_def sample_env_def)

text \<open>
  Claim C5. When the parameter \<^verbatim>\<open>query\<close> or \<^verbatim>\<open>include\<close> is not JSON, the call is rejected with
  a list of one failure and resolves with nothing; when the parameters before it were
  handled without an error, the failure carries the message of \<^verbatim>\<open>JSON.parse\<close>. In general
  the failure carries the message of the first error that the handling of a parameter
  throws.
\<close>

theorem malformed_json_rejects:
  assumes "(key, v) \<in> set query" "key = ''query'' \<or> key = ''include''"
    "JSON_parse env (unescape env (toString v)) = Inl m"
  shows "(\<exists>m'. parse env query = Inl [\<lparr>msg = m'\<rparr>]) \<and>
         (\<forall>pre post st. query = pre @ (key, v) # post \<and> forIn env pre initial = Inr st \<longrightarrow>
            parse env query = Inl [\<lparr>msg = m\<rparr>]) \<and>
         (\<forall>pre p post st e. query = pre @ p # post \<and> forIn env pre initial = Inr st \<and>
            switch env p st = Inl e \<longrightarrow> parse env query = Inl [\<lparr>msg = message e\<rparr>])"
proof (intro conjI allI impI)
  show "\<exists>m'. parse env query = Inl [\<lparr>msg = m'\<rparr>]"
    using parse_fails [OF assms(1)] switch_malformed [OF assms(2,3)] by blast
next
  fix pre post st
  assume "query = pre @ (key, v) # post \<and> forIn env pre initial = Inr st"
  then show "parse env query = Inl [\<lparr>msg = m\<rparr>]"
    using parse_first_error [of env pre st "(key, v)" "SyntaxError m" post]
      switch_malformed [OF assms(2,3)] by simp
next
  fix pre p post st e
  assume "query = pre @ p # post \<and> forIn env pre initial = Inr st \<and> switch env p st = Inl e"
  then show "parse env query = Inl [\<lparr>msg = message e\<rparr>]"
    using parse_first_error [of env pre st p e post] by simp
qed

theorem malformed_json_rejects_witness:
  "(''query'', Single ''{not valid json'') \<in> set [(''id'', Single ''5''), (''query'', Single ''{not valid json'')] \<and>
   JSON_parse sample_env (unescape sample_env (toString (Single ''{not valid json''))) = Inl ''Unexpected token'' \<and>
   forIn sample_env [(''id'', Single ''5'')] initial =
     Inr (initial\<lparr>dbQuery := (dbQuery initial)\<lparr>where' := [(Name ''id'', Str ''5'')]\<rparr>\<rparr>
          :: (string, string) locals) \<and>
   parse sample_env [(''id'', Single ''5''), (''query'', Single ''{not valid json'')] =
     Inl [\<lparr>msg = ''Unexpected token''\<rparr>]"
proof -
  have i: "(''query'', Single ''{not valid json'') \<in> set [(''id'', Single ''5''), (''query'', Single ''{not valid json'')]"
    by simp
  have j: "JSON_parse sample_env (unescape sample_env (toString (Single ''{not valid json''))) = Inl ''Unexpected token''"
    by (simp add: sample_env_def sample_JSON_parse_def)
  have f: "forIn sample_env [(''id'', Single ''5'')] initial =
     Inr (initial\<lparr>dbQuery := (dbQuery initial)\<lparr>where' := [(Name ''id'', Str ''5'')]\<rparr>\<rparr>
          :: (string, string) locals)"
    by (simp add: switch_def initial_def)
  have k: "''query'' = ''query'' \<or> ''query'' = ''include''" by simp
  from malformed_json_rejects [OF i k j]
  have "\<forall>pre post st.
          [(''id'', Single ''5''), (''query'', Single ''{not valid json'')] =
            pre @ (''query'', Single ''{not valid json'') # post \<and>
          forIn sample_env pre initial = Inr st \<longrightarrow>
          parse sample_env [(''id'', Single ''5''), (''query'', Single ''{not valid json'')] =
            Inl [\<lparr>msg = ''Unexpected token''\<rparr>]"
    by blast
  from this [rule_format, of "[(''id'', Single ''5'')]" "[]"
      "initial\<lparr>dbQuery := (dbQuery initial)\<lparr>where' := [(Name ''id'', Str ''5'')]\<rparr>\<rparr>"] f
  have "parse sample_env [(''id'', Single ''5''), (''query'', Single ''{not valid json'')] =
            Inl [\<lparr>msg = ''Unexpected token''\<rparr>]"
    by simp
  with i j f show ?thesis by simp
qed

text \<open>
  Claim C6. When the unescaped text of the parameter \<^verbatim>\<open>query\<close> is JSON and the rewrite pass
  returns \<open>q\<close> for it (an object has no name twice), handling the parameter succeeds;
  afterwards \<^verbatim>\<open>where\<close> has every property of \<open>q\<close> with the value it has in \<open>q\<close>, it has
  under every other name what it had before, and nothing but \<^verbatim>\<open>where\<close> has changed: not
  another field of the query object, and not the page index or the page size.
\<close>

theorem query_merges_into_where:
  assumes "JSON_parse env (unescape env (toString v)) = Inr json"
    "iterativeReplace env json = Inr q" "distinct (map fst (ownProperties q))"
  shows "\<exists>st'. switch env (''query'', v) st = Inr st' \<and>
           (\<forall>k x. (k, x) \<in> set (ownProperties q) \<longrightarrow> map_of (where' (dbQuery st')) k = Some x) \<and>
           (\<forall>k. k \<notin> fst ` set (ownProperties q) \<longrightarrow>
                map_of (where' (dbQuery st')) k = map_of (where' (dbQuery st)) k) \<and>
           st' = st\<lparr>dbQuery := (dbQuery st)
                   \<lparr>where' := spread (where' (dbQuery st)) (ownProperties q)\<rparr>\<rparr>"
proof -
  let ?w = "spread (where' (dbQuery st)) (ownProperties q)"
  let ?st = "st\<lparr>dbQuery := (dbQuery st)\<lparr>where' := ?w\<rparr>\<rparr>"
  have sw: "switch env (''query'', v) st = Inr ?st"
    using assms(1,2) by (simp add: switch_query parseQueryFields_def unescapeEscapedQuery_def)
  have dr: "distinct (map fst (rev (ownProperties q)))"
    using assms(3) by (simp add: rev_map [symmetric])
  have a: "map_of ?w k = Some x" if "(k, x) \<in> set (ownProperties q)" for k x
  proof -
    from that dr have "map_of (rev (ownProperties q)) k = Some x"
      by (simp only: map_of_eq_Some_iff) simp
    then show ?thesis by (simp add: map_of_spread)
  qed
  have b: "map_of ?w k = map_of (where' (dbQuery st)) k" if "k \<notin> fst ` set (ownProperties q)" for k
  proof -
    from that have "map_of (rev (ownProperties q)) k = None"
      by (simp only: map_of_eq_None_iff) simp
    then show ?thesis by (simp add: map_of_spread)
  qed
  from sw a b show ?thesis by (intro exI [of _ ?st]) simp
qed

theorem query_merges_into_where_witness:
  "JSON_parse sample_env (unescape sample_env (toString (Single ''{\"id\":7}''))) =
     Inr (Obj [(Name ''id'', Num 7)]) \<and>
   iterativeReplace sample_env (Obj [(Name ''id'', Num 7)]) = Inr (Obj [(Name ''id'', Num 7)]) \<and>
   distinct (map fst (ownProperties (Obj [(Name ''id'', Num 7)] :: (string, string) json))) \<and>
   (\<exists>st'. switch sample_env (''query'', Single ''{\"id\":7}'')
            (initial\<lparr>dbQuery := (dbQuery initial)
               \<lparr>where' := [(Name ''id'', Str ''5''), (Name ''name'', Str ''a'')]\<rparr>\<rparr>) = Inr st' \<and>
          map_of (where' (dbQuery st')) (Name ''id'') = Some (Num 7) \<and>
          map_of (where' (dbQuery st')) (Name ''name'') = Some (Str ''a'') \<and>
          limit (dbQuery st') = Finite 200)"
proof -
  have j: "JSON_parse sample_env (unescape sample_env (toString (Single ''{\"id\":7}''))) =
     Inr (Obj [(Name ''id'', Num 7)])"
    by (simp add: sample_env_def sample_JSON_parse_def)
  have i: "iterativeReplace sample_env (Obj [(Name ''id'', Num 7)]) = Inr (Obj [(Name ''id'', Num 7)])"
    by (simp add: operators_def)
  have d: "distinct (map fst (ownProperties (Obj [(Name ''id'', Num 7)] :: (string, string) json)))"
    by simp
  from query_merges_into_where [OF j i d, of "initial\<lparr>dbQuery := (dbQuery initial)
               \<lparr>where' := [(Name ''id'', Str ''5''), (Name ''name'', Str ''a'')]\<rparr>\<rparr>"] j i d
  show ?thesis by (auto simp: initial_def pageSizeLimit_def)
qed



text \<open>
  Claim C8. Let the store hold the parameter mapping, with no name twice, behind \<open>r\<close>. A
  call of \<^verbatim>\<open>parse\<close> leaves every cell that was there as it was, the parameter mapping among
  them, and is settled with what the function \<open>parse\<close> gives for the mapping, the operator
  table and the collaborator. A second call, on the store that the first one left, is
  settled with the same, and again leaves the cells as they were.
\<close>

theorem parse_is_pure:
  assumes "r < length s" "s ! r = Params query" "distinct (map fst query)"
  shows "\<exists>res s'. parseS env r s = (res, s') \<and> take (length s) s' = s \<and>
           settled res s' = Some (parse env query) \<and>
           (\<exists>res2 s2. parseS env r s' = (res2, s2) \<and> settled res2 s2 = settled res s' \<and>
              take (length s) s2 = s)"
proof -
  from parseS_sim [OF assms] obtain res s' where
    a: "parseS env r s = (res, s')" "length s \<le> length s'" "take (length s) s' = s"
      "settled res s' = Some (parse env query)"
    by blast
  have r': "r < length s'" using assms(1) a(2) by simp
  have "s' ! r = take (length s) s' ! r" using assms(1) by simp
  then have q': "s' ! r = Params query" using a(3) assms(2) by simp
  from parseS_sim [OF r' q' assms(3)] obtain res2 s2 where
    b: "parseS env r s' = (res2, s2)" "length s' \<le> length s2" "take (length s') s2 = s'"
      "settled res2 s2 = Some (parse env query)"
    by blast
  have "take (length s) s2 = take (length s) (take (length s') s2)"
    using a(2) by (simp add: min_def)
  then have "take (length s) s2 = s" using b(3) a(3) by simp
  with a b show ?thesis by simp
qed

theorem parse_is_pure_witness:
  "distinct (map fst [(''id'', Single ''gt:1''), (''query'', Single ''{\"id\":7}'')]) \<and>
   parseS sample_env 0 [Params [(''id'', Single ''gt:1''), (''query'', Single ''{\"id\":7}'')]] =
     (Inr 1,
      [Params [(''id'', Single ''gt:1''), (''query'', Single ''{\"id\":7}'')],
       Query \<lparr>where' = [(Name ''id'', Num 7)], offset = Finite 0, limit = Finite 200,
              attributes = None, order' = None, group' = None, include' = None\<rparr>,
       Tree (Obj [(Name ''id'', Num 7)])])"
proof -
  have d: "distinct (map fst [(''id'', Single ''gt:1''), (''query'', Single ''{\"id\":7}'')])"
    by simp
  from parse_is_pure [of 0 "[Params [(''id'', Single ''gt:1''), (''query'', Single ''{\"id\":7}'')]]"
      "[(''id'', Single ''gt:1''), (''query'', Single ''{\"id\":7}'')]" sample_env] d
  show ?thesis
    by (simp add: parseS_def switchS_def readParams_def readTree_def readQuery_def writeQuery_def
        parseQueryFieldsS_def iterativeReplaceS_def unescapeEscapedQuery_def initial_def
        pageSizeLimit_def Let_def sample_env_def sample_JSON_parse_def operators_def operatorKey_def
        isLineTerminator_def spread_def)
qed

text \<open>
  Claim C9, amended. When \<^verbatim>\<open>fields\<close>, or a parameter that is not reserved, is a sequence of
  strings, the call is rejected. The parameters \<^verbatim>\<open>sort_by\<close> and \<^verbatim>\<open>group_by\<close> take a sequence
  and read the field list of each of its strings in turn. The parameters \<^verbatim>\<open>limit\<close>,
  \<^verbatim>\<open>offset\<close>, \<^verbatim>\<open>query\<close> and \<^verbatim>\<open>include\<close> do not reject a sequence either: they handle it as
  they handle the one string made of its strings with commas between them.
\<close>

theorem sequence_valued_parameters:
  "((''fields'', Repeated xs) \<in> set query \<or>
      (key \<notin> set reservedKeys \<and> (key, Repeated xs) \<in> set query) \<longrightarrow>
      (\<exists>m. parse env query = Inl [\<lparr>msg = m\<rparr>])) \<and>
   switch env (''sort_by'', Repeated xs) st =
     Inr (st\<lparr>dbQuery := (dbQuery st)\<lparr>order' :=
       Some (concat (map (\<lambda>x. map (split_on CHR ''.'' []) (split_on CHR '','' [] x)) xs))\<rparr>\<rparr>) \<and>
   switch env (''group_by'', Repeated xs) st =
     Inr (st\<lparr>dbQuery := (dbQuery st)\<lparr>group' :=
       Some (concat (map (\<lambda>x. map (split_on CHR ''.'' []) (split_on CHR '','' [] x)) xs))\<rparr>\<rparr>) \<and>
   switch env (''limit'', Repeated xs) st = switch env (''limit'', Single (join_comma xs)) st \<and>
   switch env (''offset'', Repeated xs) st = switch env (''offset'', Single (join_comma xs)) st \<and>
   switch env (''query'', Repeated xs) st = switch env (''query'', Single (join_comma xs)) st \<and>
   switch env (''include'', Repeated xs) st = switch env (''include'', Single (join_comma xs)) st"
proof (intro conjI impI)
  assume "(''fields'', Repeated xs) \<in> set query \<or>
      (key \<notin> set reservedKeys \<and> (key, Repeated xs) \<in> set query)"
  then show "\<exists>m. parse env query = Inl [\<lparr>msg = m\<rparr>]"
  proof
    assume a: "(''fields'', Repeated xs) \<in> set query"
    show ?thesis by (rule parse_fails [OF a]) (simp add: switch_fields_Repeated)
  next
    assume a: "key \<notin> set reservedKeys \<and> (key, Repeated xs) \<in> set query"
    then have "(key, Repeated xs) \<in> set query" by simp
    then show ?thesis by (rule parse_fails) (use a in \<open>simp add: switch_default_Repeated\<close>)
  qed
qed (simp_all add: switch_def parseFields_Repeated parseQueryFields_def parseIncludeFields_def
      unescapeEscapedQuery_def del: parseFields.simps)

theorem sequence_valued_parameters_witness:
  "(''fields'', Repeated [''id'', ''name'']) \<in> set [(''fields'', Repeated [''id'', ''name''])] \<and>
   parse sample_env [(''fields'', Repeated [''id'', ''name''])] =
     Inl [\<lparr>msg = ''req.query.fields.split is not a function''\<rparr>]"
  using sequence_valued_parameters
    [of "[''id'', ''name'']" "[(''fields'', Repeated [''id'', ''name''])]" "''x''" sample_env initial]
  by (simp add: parse_def switch_def)

text \<open>
  Claim C9 as stated fails where it says that only \<^verbatim>\<open>sort_by\<close> and \<^verbatim>\<open>group_by\<close> take a
  sequence: the call with \<^verbatim>\<open>limit\<close> given twice, as 10 and as 20, resolves, with the limit
  10.
\<close>

theorem sequence_accepted_for_limit:
  "parse sample_env [(''limit'', Repeated [''10'', ''20''])] =
     Inr \<lparr>where' = [], offset = Finite 0, limit = Finite 10, attributes = None, order' = None,
          group' = None, include' = None\<rparr>"
  by (simp add: parse_def switch_def initial_def pageSizeLimit_def Let_def sample_env_def
      sample_parseInt_def isDigit_def digitsValue_def)



end
